theory Spec2Isabelle
  imports Complex_Main "HOL-Library.AList" "HOL-Library.Multiset"
begin

section \<open>Values\<close>

text \<open>
  The gateway (\<^verbatim>\<open>src/drone.py\<close>) receives newline-delimited JSON. A decoded JSON value is
  one of Python's \<^verbatim>\<open>None\<close>, \<^verbatim>\<open>bool\<close>, number, \<^verbatim>\<open>str\<close>, \<^verbatim>\<open>list\<close> or \<^verbatim>\<open>dict\<close>. Numbers
  (Python \<^verbatim>\<open>int\<close> and \<^verbatim>\<open>float\<close>) are modelled by exact rationals: rounding error of the
  floating-point sum and the values \<^verbatim>\<open>nan\<close> and \<^verbatim>\<open>inf\<close> are outside the model. A \<^verbatim>\<open>str\<close> is
  kept as its UTF-8 encoding, a list of bytes, and so is a \<^verbatim>\<open>bytes\<close> value. An object is an
  association list; a key is looked up with \<open>map_of\<close>.
\<close>

datatype json =
    JNull
  | JBool bool
  | JNum rat
  | JStr string
  | JArr "json list"
  | JObj "(string \<times> json) list"

datatype py_error = TypeError | KeyError | ValueError | OverflowError

section \<open>Rolling statistics per sensor (class Stats)\<close>

text \<open>Thresholds, lines 24-25.\<close>

definition TEMP_MIN :: rat where "TEMP_MIN = 18"
definition TEMP_MAX :: rat where "TEMP_MAX = 27"
definition HUM_MIN :: rat where "HUM_MIN = 30"
definition HUM_MAX :: rat where "HUM_MAX = 60"

text \<open>
  The object's attributes \<^verbatim>\<open>t\<close>, \<^verbatim>\<open>h\<close>, \<^verbatim>\<open>avg_t\<close>, \<^verbatim>\<open>avg_h\<close>, \<^verbatim>\<open>last\<close>, \<^verbatim>\<open>anom\<close>; the fields
  carry the prefix \<open>st_\<close> because a record field is a constant of the theory.
\<close>

record stats =
  st_t :: "rat list"
  st_h :: "rat list"
  st_avg_t :: rat
  st_avg_h :: rat
  st_last :: json
  st_anom :: nat

text \<open>
  \<^verbatim>\<open>deque(maxlen=n).append(x)\<close>: the element is added on the right and, when the deque
  then holds more than \<open>n\<close> elements, the leftmost one is discarded.
\<close>

definition deque_append :: "nat \<Rightarrow> 'a list \<Rightarrow> 'a \<Rightarrow> 'a list" where
  "deque_append maxlen xs x =
     (let ys = xs @ [x] in if maxlen < length ys then tl ys else ys)"

text \<open>\<^verbatim>\<open>Stats.__init__\<close>, lines 45-50. The initial \<^verbatim>\<open>last\<close> is an em dash, one
  character of three bytes.\<close>

definition Stats_init :: stats where
  "Stats_init =
     \<lparr>st_t = [], st_h = [], st_avg_t = 0, st_avg_h = 0,
      st_last = JStr [CHR 0xE2, CHR 0x80, CHR 0x94], st_anom = 0\<rparr>"

text \<open>
  The characters of a \<^verbatim>\<open>str\<close>, each with the bytes that encode it: a character starts at
  every byte that is not a continuation byte (\<^verbatim>\<open>10xxxxxx\<close>) and takes the continuation
  bytes that follow.
\<close>

definition utf8_cont :: "char \<Rightarrow> bool" where
  "utf8_cont c = (128 \<le> (of_char c :: nat) \<and> (of_char c :: nat) < 192)"

function utf8_chars :: "string \<Rightarrow> string list" where
  "utf8_chars [] = []"
| "utf8_chars (c # cs) = (c # takeWhile utf8_cont cs) # utf8_chars (dropWhile utf8_cont cs)"
  by pat_completeness auto
termination
  by (relation "measure length") (auto simp: length_dropWhile_le less_Suc_eq_le)

text \<open>
  \<^verbatim>\<open>ts[-8:]\<close>: the last eight characters of a string or the last eight elements of a
  list; every other JSON value raises (\<^verbatim>\<open>None\<close>, booleans and numbers are not
  subscriptable, a dict does not take a slice as a key). The exception is recorded as
  \<^verbatim>\<open>TypeError\<close> in every case; for a dict, Python 3.12 and later raise \<^verbatim>\<open>KeyError\<close> instead.
\<close>

fun slice_last8 :: "json \<Rightarrow> json option" where
  "slice_last8 (JStr s) =
     Some (JStr (concat (drop (length (utf8_chars s) - 8) (utf8_chars s))))"
| "slice_last8 (JArr xs) = Some (JArr (drop (length xs - 8) xs))"
| "slice_last8 _ = None"

text \<open>The test of line 63.\<close>

definition bad_reading :: "rat \<Rightarrow> rat \<Rightarrow> bool" where
  "bad_reading tt hh =
     (\<not> ((TEMP_MIN \<le> tt \<and> tt \<le> TEMP_MAX) \<and> (HUM_MIN \<le> hh \<and> hh \<le> HUM_MAX)))"

text \<open>
  \<^verbatim>\<open>Stats.add\<close>, lines 52-66. The result is the returned flag, or the exception raised
  by line 62, together with the object as the call leaves it: when line 62 raises, the
  two windows and the two averages have already been updated.
\<close>

definition Stats_add :: "stats \<Rightarrow> rat \<Rightarrow> rat \<Rightarrow> json \<Rightarrow> (py_error + bool) \<times> stats" where
  "Stats_add st tt hh ts =
     (let t' = deque_append 10 (st_t st) tt;
          h' = deque_append 10 (st_h st) hh;
          st1 = st\<lparr>st_t := t', st_h := h',
                   st_avg_t := sum_list t' / of_nat (length t'),
                   st_avg_h := sum_list h' / of_nat (length h')\<rparr>
      in case slice_last8 ts of
           None \<Rightarrow> (Inl TypeError, st1)
         | Some l \<Rightarrow>
             (let st2 = st1\<lparr>st_last := l\<rparr>;
                  bad = bad_reading tt hh
              in if bad then (Inr bad, st2\<lparr>st_anom := st_anom st2 + 1\<rparr>)
                 else (Inr bad, st2)))"

text \<open>
  A sequence of calls on one object, each with a string timestamp: the object after the
  last call.
\<close>

fun Stats_add_all :: "stats \<Rightarrow> (rat \<times> rat \<times> string) list \<Rightarrow> stats" where
  "Stats_add_all st [] = st"
| "Stats_add_all st ((tt, hh, ts) # rs) = Stats_add_all (snd (Stats_add st tt hh (JStr ts))) rs"

section \<open>Shared state\<close>

text \<open>
  A summary packet (the dict built at lines 205-206) and the lines put on the log queue.
  A log line is kept as an event with its arguments, not as formatted text.
\<close>

record packet =
  pk_sensor_id :: json
  pk_avg_temp :: rat
  pk_avg_hum :: rat
  pk_anomaly_count :: nat
  pk_timestamp :: string

datatype log_event =
    LogReading json bool rat rat
  | LogDisconnected json
  | LogCentralOffline
  | LogCentralLost
  | LogQueuedSent
  | LogStillOffline
  | LogBatteryLow
  | LogBatteryFull

text \<open>
  The objects that \<^verbatim>\<open>main\<close> creates and shares between the threads (lines 286-292), the
  sender's persistent socket (line 201) and the battery label of the GUI. Three fields
  stand for the outside world: \<open>wire\<close> lists what the collector has received, each
  packet with the connection that carried it; \<open>net_ops\<close> counts the network operations
  (\<^verbatim>\<open>create_connection\<close>, \<^verbatim>\<open>sendall\<close>) attempted so far and \<open>now_calls\<close> the calls of
  \<^verbatim>\<open>utc_now\<close>. A connection is named by the number of the operation that opened it.
  The dict \<^verbatim>\<open>sensors\<close> is an association list in insertion order.
\<close>

record world =
  sensors :: "(json \<times> stats) list"
  log_queue :: "log_event list"
  packet_queue :: "packet list"
  sock :: "nat option"
  wire :: "(nat \<times> packet) list"
  net_ops :: nat
  now_calls :: nat
  listening_event :: bool
  charging_event :: bool
  stop_event :: bool
  gui_batt :: int

section \<open>Sender and queue (make\_sender, flush\_queue)\<close>

text \<open>
  \<^verbatim>\<open>round(x, 2)\<close>: the nearest multiple of 1/100, a tie going to the even one.
\<close>

definition round_half_even :: "rat \<Rightarrow> int" where
  "round_half_even x =
     (let f = \<lfloor>x\<rfloor>; d = x - of_int f
      in if d < 1 / 2 then f else if 1 / 2 < d then f + 1 else if even f then f else f + 1)"

definition py_round2 :: "rat \<Rightarrow> rat" where
  "py_round2 x = of_int (round_half_even (x * 100)) / 100"

text \<open>
  Lines 220-226: \<^verbatim>\<open>sendall\<close> on the open connection \<open>c\<close>. The outcome of the network
  operation numbered \<open>i\<close> is \<open>net i\<close> (\<open>False\<close>: it raises).
\<close>

definition send_transmit :: "(nat \<Rightarrow> bool) \<Rightarrow> nat \<Rightarrow> packet \<Rightarrow> world \<Rightarrow> world" where
  "send_transmit net c p w =
     (if net (net_ops w)
      then w\<lparr>net_ops := net_ops w + 1, wire := wire w @ [(c, p)]\<rparr>
      else w\<lparr>net_ops := net_ops w + 1,
             log_queue := log_queue w @ [LogCentralLost],
             sock := None,
             packet_queue := packet_queue w @ [p]\<rparr>)"

text \<open>
  \<^verbatim>\<open>send\<close>, lines 204-226; \<open>make_packet\<close> is the dict of lines 205-206. \<open>clock i\<close> is
  what the call of \<^verbatim>\<open>utc_now\<close> numbered \<open>i\<close> returns.
\<close>

definition make_packet :: "json \<Rightarrow> rat \<Rightarrow> rat \<Rightarrow> nat \<Rightarrow> string \<Rightarrow> packet" where
  "make_packet sensor_id avg_temp avg_hum anomaly_count now =
     \<lparr>pk_sensor_id = sensor_id, pk_avg_temp = py_round2 avg_temp,
      pk_avg_hum = py_round2 avg_hum, pk_anomaly_count = anomaly_count,
      pk_timestamp = now\<rparr>"

definition send ::
  "(nat \<Rightarrow> bool) \<Rightarrow> (nat \<Rightarrow> string) \<Rightarrow> json \<Rightarrow> rat \<Rightarrow> rat \<Rightarrow> nat \<Rightarrow> world \<Rightarrow> world" where
  "send net clock sensor_id avg_temp avg_hum anomaly_count w =
     (let p = make_packet sensor_id avg_temp avg_hum anomaly_count (clock (now_calls w));
          w0 = w\<lparr>now_calls := now_calls w + 1\<rparr>
      in if charging_event w0 then w0\<lparr>packet_queue := packet_queue w0 @ [p]\<rparr>
         else
           (case sock w0 of
              None \<Rightarrow>
                (if net (net_ops w0)
                 then send_transmit net (net_ops w0) p
                        (w0\<lparr>net_ops := net_ops w0 + 1, sock := Some (net_ops w0)\<rparr>)
                 else w0\<lparr>net_ops := net_ops w0 + 1,
                         log_queue := log_queue w0 @ [LogCentralOffline],
                         packet_queue := packet_queue w0 @ [p]\<rparr>)
            | Some c \<Rightarrow> send_transmit net c p w0))"

text \<open>A sequence of calls of \<^verbatim>\<open>send\<close>, in order.\<close>

fun send_all ::
  "(nat \<Rightarrow> bool) \<Rightarrow> (nat \<Rightarrow> string) \<Rightarrow> (json \<times> rat \<times> rat \<times> nat) list \<Rightarrow> world \<Rightarrow> world" where
  "send_all net clock [] w = w"
| "send_all net clock ((sid, a, b, n) # cs) w = send_all net clock cs (send net clock sid a b n w)"

text \<open>
  The body of the loop of \<^verbatim>\<open>flush_queue\<close>, lines 236-243, for the packet \<open>p\<close> that line 235
  has popped: a connection of its own is opened (and closed by the \<^verbatim>\<open>with\<close> block) and the
  packet sent on it; either operation may raise. The flag tells whether the loop goes on
  (\<open>False\<close>: the \<^verbatim>\<open>break\<close> of line 243).
\<close>

definition flush_body :: "(nat \<Rightarrow> bool) \<Rightarrow> packet \<Rightarrow> world \<Rightarrow> bool \<times> world" where
  "flush_body net p w1 =
     (if net (net_ops w1)
      then
        (if net (net_ops w1 + 1)
         then (True, w1\<lparr>net_ops := net_ops w1 + 2,
                        wire := wire w1 @ [(net_ops w1, p)],
                        log_queue := log_queue w1 @ [LogQueuedSent]\<rparr>)
         else (False, w1\<lparr>net_ops := net_ops w1 + 2,
                         log_queue := log_queue w1 @ [LogStillOffline],
                         packet_queue := p # packet_queue w1\<rparr>))
      else (False, w1\<lparr>net_ops := net_ops w1 + 1,
                      log_queue := log_queue w1 @ [LogStillOffline],
                      packet_queue := p # packet_queue w1\<rparr>))"

text \<open>\<^verbatim>\<open>flush_queue\<close>, lines 230-243.\<close>

function flush_queue :: "(nat \<Rightarrow> bool) \<Rightarrow> world \<Rightarrow> world" where
  "flush_queue net w =
     (case packet_queue w of
        [] \<Rightarrow> w
      | p # rest \<Rightarrow>
          (let r = flush_body net p (w\<lparr>packet_queue := rest\<rparr>)
           in if fst r then flush_queue net (snd r) else snd r))"
  by pat_completeness auto
termination
  by (relation "measure (\<lambda>(net, w). length (packet_queue w))")
    (auto simp: flush_body_def split: if_splits)

declare flush_queue.simps [simp del]

text \<open>
  The same loop with a bound on the number of turns: each turn of the loop body uses one
  unit of \<open>fuel\<close>, and the result is \<open>None\<close> when the body would have to run with none
  left.
\<close>

fun flush_fuel :: "nat \<Rightarrow> (nat \<Rightarrow> bool) \<Rightarrow> world \<Rightarrow> world option" where
  "flush_fuel fuel net w =
     (case packet_queue w of
        [] \<Rightarrow> Some w
      | p # rest \<Rightarrow>
          (case fuel of
             0 \<Rightarrow> None
           | Suc fuel' \<Rightarrow>
               (let r = flush_body net p (w\<lparr>packet_queue := rest\<rparr>)
                in if fst r then flush_fuel fuel' net (snd r) else Some (snd r))))"

declare flush_fuel.simps [simp del]

section \<open>Battery worker\<close>

record battery_state =
  battery_level :: int
  is_discharging :: bool

definition battery_init :: battery_state where
  "battery_init = \<lparr>battery_level = 100, is_discharging = True\<rparr>"

text \<open>One turn of the loop of \<^verbatim>\<open>battery\<close>, lines 256-269 (the sleep apart).\<close>

definition battery_tick :: "(nat \<Rightarrow> bool) \<Rightarrow> battery_state \<times> world \<Rightarrow> battery_state \<times> world" where
  "battery_tick net bw =
     (let b = fst bw; w = snd bw;
          lvl = battery_level b + (if is_discharging b then - 1 else 1);
          w1 = w\<lparr>gui_batt := lvl\<rparr>
      in if is_discharging b \<and> lvl \<le> 15
         then (\<lparr>battery_level = lvl, is_discharging = False\<rparr>,
               w1\<lparr>listening_event := False, charging_event := True,
                  log_queue := log_queue w1 @ [LogBatteryLow]\<rparr>)
         else if \<not> is_discharging b \<and> 100 \<le> lvl
         then (\<lparr>battery_level = lvl, is_discharging = True\<rparr>,
               flush_queue net
                 (w1\<lparr>listening_event := True, charging_event := False,
                     log_queue := log_queue w1 @ [LogBatteryFull]\<rparr>))
         else (\<lparr>battery_level = lvl, is_discharging = is_discharging b\<rparr>, w1))"

text \<open>The first \<open>n\<close> turns of the loop.\<close>

fun battery_run :: "(nat \<Rightarrow> bool) \<Rightarrow> nat \<Rightarrow> battery_state \<times> world \<Rightarrow> battery_state \<times> world" where
  "battery_run net 0 bw = bw"
| "battery_run net (Suc n) bw = battery_run net n (battery_tick net bw)"

section \<open>Listener (the connection worker handle)\<close>




text \<open>
  A dict key: lists and dicts are unhashable; \<^verbatim>\<open>True\<close> and \<^verbatim>\<open>False\<close> are the keys 1
  and 0.
\<close>

fun dict_key :: "json \<Rightarrow> json option" where
  "dict_key (JArr xs) = None"
| "dict_key (JObj kvs) = None"
| "dict_key (JBool b) = Some (JNum (if b then 1 else 0))"
| "dict_key v = Some v"

text \<open>\<^verbatim>\<open>d.setdefault(k, v)\<close>: the value found, and the dict.\<close>

definition setdefault :: "('k \<times> 'v) list \<Rightarrow> 'k \<Rightarrow> 'v \<Rightarrow> 'v \<times> ('k \<times> 'v) list" where
  "setdefault d k v = (case map_of d k of Some v0 \<Rightarrow> (v0, d) | None \<Rightarrow> (v, d @ [(k, v)]))"

text \<open>
  Lines 159-164, for one reading. \<open>send_avg\<close> is the listener's parameter of that name.
  The \<^verbatim>\<open>Stats\<close> object lives in the dict, so what \<^verbatim>\<open>add\<close> did to it is stored back under
  its key. The first component of the result is the exception that ends the worker, if
  any: an unhashable \<^verbatim>\<open>sid\<close> at line 159, or the one \<^verbatim>\<open>add\<close> raises.
\<close>

definition handle_reading ::
  "(json \<Rightarrow> rat \<Rightarrow> rat \<Rightarrow> nat \<Rightarrow> world \<Rightarrow> world) \<Rightarrow> json \<Rightarrow> rat \<Rightarrow> rat \<Rightarrow> json \<Rightarrow> world
     \<Rightarrow> py_error option \<times> world" where
  "handle_reading send_avg sid t h ts w =
     (case dict_key sid of
        None \<Rightarrow> (Some TypeError, w)
      | Some k \<Rightarrow>
          (let sd = setdefault (sensors w) k Stats_init;
               r = Stats_add (fst sd) t h ts;
               st = snd r;
               w1 = w\<lparr>sensors := AList.update k st (snd sd)\<rparr>
           in case fst r of
                Inl e \<Rightarrow> (Some e, w1)
              | Inr warn \<Rightarrow>
                  (let w2 = w1\<lparr>log_queue := log_queue w1 @ [LogReading sid warn t h]\<rparr>
                   in if length (st_t st) = 10
                      then (None, send_avg sid (st_avg_t st) (st_avg_h st) (st_anom st) w2)
                      else (None, w2))))"








section \<open>Notions used to state the properties\<close>

text \<open>
  A call of \<^verbatim>\<open>send\<close> in state \<open>w\<close>, while running, fails when an operation it attempts
  raises: with no connection open, \<^verbatim>\<open>create_connection\<close> or the \<^verbatim>\<open>sendall\<close> after it; with
  a connection open, \<^verbatim>\<open>sendall\<close>.
\<close>

definition send_fails :: "(nat \<Rightarrow> bool) \<Rightarrow> world \<Rightarrow> bool" where
  "send_fails net w =
     (case sock w of
        None \<Rightarrow> \<not> (net (net_ops w) \<and> net (net_ops w + 1))
      | Some c \<Rightarrow> \<not> net (net_ops w))"

text \<open>Every call of a sequence fails, each in the state the calls before it left.\<close>

fun sends_fail ::
  "(nat \<Rightarrow> bool) \<Rightarrow> (nat \<Rightarrow> string) \<Rightarrow> (json \<times> rat \<times> rat \<times> nat) list \<Rightarrow> world \<Rightarrow> bool" where
  "sends_fail net clock [] w = True"
| "sends_fail net clock ((sid, a, b, n) # cs) w =
     (send_fails net w \<and> sends_fail net clock cs (send net clock sid a b n w))"

text \<open>
  The packets of a sequence of calls, in call order, when the first call is the call of
  \<^verbatim>\<open>utc_now\<close> numbered \<open>k\<close>.
\<close>

definition packets_of ::
  "(nat \<Rightarrow> string) \<Rightarrow> nat \<Rightarrow> (json \<times> rat \<times> rat \<times> nat) list \<Rightarrow> packet list" where
  "packets_of clock k cs =
     map (\<lambda>(i, sid, a, b, n). make_packet sid a b n (clock i)) (List.enumerate k cs)"

text \<open>
  The shared objects as \<^verbatim>\<open>main\<close> creates them, lines 286-292: nothing stored, no connection
  open, listening, not charging, the battery label at 100.
\<close>

definition world_init :: world where
  "world_init =
     \<lparr>sensors = [], log_queue = [], packet_queue = [], sock = None, wire = [],
      net_ops = 0, now_calls = 0, listening_event = True, charging_event = False,
      stop_event = False, gui_batt = 100\<rparr>"

text \<open>A clock and a sequence of calls of \<^verbatim>\<open>send\<close> for the examples.\<close>

definition clock_demo :: "nat \<Rightarrow> string" where
  "clock_demo i = replicate i (CHR ''+'') @ ''T''"

definition calls_demo :: "(json \<times> rat \<times> rat \<times> nat) list" where
  "calls_demo = [(JStr ''s1'', 20, 40, 0), (JStr ''s2'', 21, 41, 1), (JStr ''s1'', 22, 42, 0)]"

text \<open>
  The number of packets of the queue \<open>q\<close> that a flush starting at network operation
  \<open>n\<close> transmits: the packets before the first one whose connection or transmission
  fails. The packet at position \<open>i\<close> is attempted with the operations \<open>n + 2 * i\<close> and
  \<open>n + 2 * i + 1\<close>.
\<close>

fun flushed :: "(nat \<Rightarrow> bool) \<Rightarrow> nat \<Rightarrow> 'a list \<Rightarrow> nat" where
  "flushed net n [] = 0"
| "flushed net n (p # ps) = (if net n \<and> net (n + 1) then Suc (flushed net (n + 2) ps) else 0)"

text \<open>
  Packets sent one after the other, each on a connection of its own: the first is opened
  by operation \<open>n\<close>, the next by \<open>n + 2\<close>, and so on.
\<close>

fun fresh_conns :: "nat \<Rightarrow> 'a list \<Rightarrow> (nat \<times> 'a) list" where
  "fresh_conns n [] = []"
| "fresh_conns n (p # ps) = (n, p) # fresh_conns (n + 2) ps"

text \<open>
  A queue of three packets for the examples.
\<close>

definition queue_demo :: "packet list" where
  "queue_demo =
     [make_packet (JStr ''s1'') 20 40 0 ''T'',
      make_packet (JStr ''s2'') 21 41 1 ''+T'',
      make_packet (JStr ''s1'') 22 42 0 ''++T'']"












text \<open>
  The packets that have left the sender: those the collector has received and those
  waiting in the queue, as a multiset.
\<close>

definition delivered :: "world \<Rightarrow> packet multiset" where
  "delivered w = mset (map snd (wire w)) + mset (packet_queue w)"


section \<open>Properties of the rolling statistics\<close>

lemma deque_append_length:
  "length xs \<le> n \<Longrightarrow> length (deque_append n xs x) = min (length xs + 1) n"
  by (auto simp: deque_append_def Let_def)

lemma deque_append_last: "0 < n \<Longrightarrow> last (deque_append n xs x) = x"
  by (cases xs) (auto simp: deque_append_def Let_def)

lemma deque_append_evict:
  "0 < n \<Longrightarrow> deque_append n xs x = (if n < length xs + 1 then tl xs @ [x] else xs @ [x])"
  by (cases xs) (auto simp: deque_append_def Let_def)

lemma Stats_add_t: "st_t (snd (Stats_add st tt hh ts)) = deque_append 10 (st_t st) tt"
  by (simp add: Stats_add_def Let_def split: option.split)

lemma Stats_add_h: "st_h (snd (Stats_add st tt hh ts)) = deque_append 10 (st_h st) hh"
  by (simp add: Stats_add_def Let_def split: option.split)

lemma Stats_add_avg_t:
  "st_avg_t (snd (Stats_add st tt hh ts)) =
     sum_list (st_t (snd (Stats_add st tt hh ts)))
       / of_nat (length (st_t (snd (Stats_add st tt hh ts))))"
  by (simp add: Stats_add_def Let_def split: option.split)

lemma Stats_add_avg_h:
  "st_avg_h (snd (Stats_add st tt hh ts)) =
     sum_list (st_h (snd (Stats_add st tt hh ts)))
       / of_nat (length (st_h (snd (Stats_add st tt hh ts))))"
  by (simp add: Stats_add_def Let_def split: option.split)

lemma Stats_add_anom:
  "st_anom (snd (Stats_add st tt hh (JStr ts))) = st_anom st + (if bad_reading tt hh then 1 else 0)"
  by (simp add: Stats_add_def Let_def)

lemma Stats_add_ret: "fst (Stats_add st tt hh (JStr ts)) = Inr (bad_reading tt hh)"
  by (simp add: Stats_add_def Let_def)

lemma bad_reading_iff: "bad_reading tt hh \<longleftrightarrow> tt < 18 \<or> 27 < tt \<or> hh < 30 \<or> 60 < hh"
  by (auto simp: bad_reading_def TEMP_MIN_def TEMP_MAX_def HUM_MIN_def HUM_MAX_def)

lemma window_drop_step:
  assumes "length xs \<le> n"
  shows "drop (length (deque_append n xs x) + m - n) (deque_append n xs x @ ys)
       = drop (length xs + Suc m - n) (xs @ x # ys)"
proof (cases "length xs < n")
  case True
  then show ?thesis by (simp add: deque_append_def Let_def)
next
  case False
  with assms have len: "length xs = n" by simp
  then show ?thesis by (cases xs) (auto simp add: deque_append_def Let_def)
qed

lemma Stats_add_all_t:
  "length (st_t st) \<le> 10 \<Longrightarrow>
   st_t (Stats_add_all st rs) = drop (length (st_t st) + length rs - 10) (st_t st @ map fst rs)"
proof (induction rs arbitrary: st)
  case Nil
  then show ?case by simp
next
  case (Cons r rs)
  obtain tt hh ts where r: "r = (tt, hh, ts)" by (cases r)
  let ?st1 = "snd (Stats_add st tt hh (JStr ts))"
  have l1: "length (st_t ?st1) \<le> 10"
    using Cons.prems by (simp add: Stats_add_t deque_append_length)
  show ?case
    using Cons.IH [OF l1] window_drop_step [OF Cons.prems, of tt "length rs" "map fst rs"]
    by (simp add: r Stats_add_t)
qed

lemma Stats_add_all_h:
  "length (st_h st) \<le> 10 \<Longrightarrow>
   st_h (Stats_add_all st rs)
     = drop (length (st_h st) + length rs - 10) (st_h st @ map (\<lambda>r. fst (snd r)) rs)"
proof (induction rs arbitrary: st)
  case Nil
  then show ?case by simp
next
  case (Cons r rs)
  obtain tt hh ts where r: "r = (tt, hh, ts)" by (cases r)
  let ?st1 = "snd (Stats_add st tt hh (JStr ts))"
  have l1: "length (st_h ?st1) \<le> 10"
    using Cons.prems by (simp add: Stats_add_h deque_append_length)
  show ?case
    using Cons.IH [OF l1]
      window_drop_step [OF Cons.prems, of hh "length rs" "map (\<lambda>r. fst (snd r)) rs"]
    by (simp add: r Stats_add_h)
qed

lemma Stats_add_all_anom:
  "st_anom (Stats_add_all st rs)
     = st_anom st + length (filter (\<lambda>(tt, hh, ts). bad_reading tt hh) rs)"
  by (induction st rs rule: Stats_add_all.induct) (simp_all add: Stats_add_anom)

lemma Stats_add_all_snoc:
  "Stats_add_all st (rs @ [(tt, hh, ts)]) = snd (Stats_add (Stats_add_all st rs) tt hh (JStr ts))"
  by (induction st rs rule: Stats_add_all.induct) simp_all

lemma Stats_add_all_avg:
  "rs \<noteq> [] \<Longrightarrow>
   st_avg_t (Stats_add_all st rs)
     = sum_list (st_t (Stats_add_all st rs)) / of_nat (length (st_t (Stats_add_all st rs)))
   \<and> st_avg_h (Stats_add_all st rs)
     = sum_list (st_h (Stats_add_all st rs)) / of_nat (length (st_h (Stats_add_all st rs)))"
proof -
  assume "rs \<noteq> []"
  then obtain rs' r where "rs = rs' @ [r]"
    by (metis append_butlast_last_id)
  moreover obtain tt hh ts where "r = (tt, hh, ts)" by (cases r)
  ultimately show ?thesis
    using Stats_add_avg_t Stats_add_avg_h by (simp add: Stats_add_all_snoc)
qed

text \<open>
  With a string timestamp, \<^verbatim>\<open>Stats.add\<close> returns the anomaly flag, which is true exactly
  when the temperature is outside [18, 27] or the humidity outside [30, 60]. The reading
  is the newest entry of both windows whether anomalous or not, and the averages are taken
  over windows that hold it. The anomaly counter grows by one on an anomalous reading and
  by nothing otherwise; over a sequence of such calls it is the old counter plus the number
  of anomalous readings, so it never decreases.
\<close>

lemma Stats_add_string_timestamp:
  "fst (Stats_add st tt hh (JStr ts)) = Inr (tt < 18 \<or> 27 < tt \<or> hh < 30 \<or> 60 < hh)
   \<and> last (st_t (snd (Stats_add st tt hh (JStr ts)))) = tt
   \<and> last (st_h (snd (Stats_add st tt hh (JStr ts)))) = hh
   \<and> st_avg_t (snd (Stats_add st tt hh (JStr ts)))
       = sum_list (st_t (snd (Stats_add st tt hh (JStr ts))))
           / of_nat (length (st_t (snd (Stats_add st tt hh (JStr ts)))))
   \<and> st_avg_h (snd (Stats_add st tt hh (JStr ts)))
       = sum_list (st_h (snd (Stats_add st tt hh (JStr ts))))
           / of_nat (length (st_h (snd (Stats_add st tt hh (JStr ts)))))
   \<and> st_anom (snd (Stats_add st tt hh (JStr ts)))
       = st_anom st + (if tt < 18 \<or> 27 < tt \<or> hh < 30 \<or> 60 < hh then 1 else 0)
   \<and> st_anom (Stats_add_all st rs)
       = st_anom st
         + length (filter (\<lambda>(tt, hh, ts). tt < 18 \<or> 27 < tt \<or> hh < 30 \<or> 60 < hh) rs)
   \<and> st_anom st \<le> st_anom (Stats_add_all st rs)"
proof -
  have "st_anom (Stats_add_all st rs)
       = st_anom st
         + length (filter (\<lambda>(tt, hh, ts). tt < 18 \<or> 27 < tt \<or> hh < 30 \<or> 60 < hh) rs)"
    using Stats_add_all_anom [of st rs] by (simp add: bad_reading_iff)
  moreover have "st_avg_t (snd (Stats_add st tt hh (JStr ts)))
       = sum_list (st_t (snd (Stats_add st tt hh (JStr ts))))
           / of_nat (length (st_t (snd (Stats_add st tt hh (JStr ts)))))"
    by (rule Stats_add_avg_t)
  moreover have "st_avg_h (snd (Stats_add st tt hh (JStr ts)))
       = sum_list (st_h (snd (Stats_add st tt hh (JStr ts))))
           / of_nat (length (st_h (snd (Stats_add st tt hh (JStr ts)))))"
    by (rule Stats_add_avg_h)
  moreover have "fst (Stats_add st tt hh (JStr ts)) = Inr (tt < 18 \<or> 27 < tt \<or> hh < 30 \<or> 60 < hh)"
    by (simp add: Stats_add_ret bad_reading_iff)
  moreover have "st_anom (snd (Stats_add st tt hh (JStr ts)))
       = st_anom st + (if tt < 18 \<or> 27 < tt \<or> hh < 30 \<or> 60 < hh then 1 else 0)"
    by (simp add: Stats_add_anom bad_reading_iff)
  moreover have "last (st_t (snd (Stats_add st tt hh (JStr ts)))) = tt"
    by (simp add: Stats_add_t deque_append_last)
  moreover have "last (st_h (snd (Stats_add st tt hh (JStr ts)))) = hh"
    by (simp add: Stats_add_h deque_append_last)
  ultimately show ?thesis by simp
qed

text \<open>
  C2. A timestamp that cannot be sliced makes \<^verbatim>\<open>Stats.add\<close> raise at line 62, after lines
  58-61 have put the reading into both windows and into the averages and before lines
  63-65 test and count it. For the reading of 35 degrees and 40 percent with the timestamp
  5, which is outside [18, 27], the call on a fresh object raises \<^verbatim>\<open>TypeError\<close> and leaves
  the windows [35] and [40], the averages 35 and 40 and the anomaly counter at 0: the
  reading has entered the window and is not counted. The worker calls \<^verbatim>\<open>add\<close> outside its
  \<^verbatim>\<open>try\<close> block (line 160): for that reading it ends with the exception, the object stored
  under the sensor's key in that state and nothing logged. With a string timestamp the same
  reading is flagged and counted.
\<close>

theorem Stats_add_raises_before_counting:
  "bad_reading 35 40
   \<and> Stats_add Stats_init 35 40 (JNum 5)
       = (Inl TypeError,
          Stats_init\<lparr>st_t := [35], st_h := [40], st_avg_t := 35, st_avg_h := 40\<rparr>)
   \<and> st_t (snd (Stats_add Stats_init 35 40 (JNum 5))) = [35]
   \<and> st_anom (snd (Stats_add Stats_init 35 40 (JNum 5))) = 0
   \<and> handle_reading send_avg (JStr ''s1'') 35 40 (JNum 5) world_init
       = (Some TypeError,
          world_init\<lparr>sensors :=
            [(JStr ''s1'',
              Stats_init\<lparr>st_t := [35], st_h := [40], st_avg_t := 35, st_avg_h := 40\<rparr>)]\<rparr>)
   \<and> fst (Stats_add Stats_init 35 40 (JStr ''12:00:00'')) = Inr True
   \<and> st_anom (snd (Stats_add Stats_init 35 40 (JStr ''12:00:00''))) = 1"
proof -
  have bad: "bad_reading 35 40"
    by (simp add: bad_reading_iff)
  have add: "Stats_add Stats_init 35 40 (JNum 5)
       = (Inl TypeError,
          Stats_init\<lparr>st_t := [35], st_h := [40], st_avg_t := 35, st_avg_h := 40\<rparr>)"
    by (simp add: Stats_add_def Stats_init_def deque_append_def Let_def)
  have anom: "st_anom (snd (Stats_add Stats_init 35 40 (JNum 5))) = 0"
    by (simp add: add) (simp add: Stats_init_def)
  have hr: "handle_reading send_avg (JStr ''s1'') 35 40 (JNum 5) world_init
       = (Some TypeError,
          world_init\<lparr>sensors :=
            [(JStr ''s1'',
              Stats_init\<lparr>st_t := [35], st_h := [40], st_avg_t := 35, st_avg_h := 40\<rparr>)]\<rparr>)"
  proof -
    have sw: "sensors world_init = []"
      by (simp add: world_init_def)
    show ?thesis
      by (simp add: handle_reading_def setdefault_def sw add Let_def)
  qed
  have str: "fst (Stats_add Stats_init 35 40 (JStr ''12:00:00'')) = Inr True"
    "st_anom (snd (Stats_add Stats_init 35 40 (JStr ''12:00:00''))) = 1"
    using bad by (simp_all add: Stats_add_ret Stats_add_anom) (simp add: Stats_init_def)
  show ?thesis
    using bad add anom hr str by simp
qed

text \<open>
  C3. For the object reached from a fresh \<^verbatim>\<open>Stats()\<close> by any sequence of calls, both
  windows hold at most ten entries, namely the last ten values added, in order. One more
  call appends the new value and, when the window already held ten, drops exactly its
  oldest entry; this holds also when the call raises on its timestamp. After every call
  each average is the sum of the whole current window divided by its length.
\<close>

theorem Stats_window_fifo:
  "(let st = Stats_add_all Stats_init rs; st' = snd (Stats_add st tt hh ts)
    in length (st_t st) \<le> 10 \<and> length (st_h st) \<le> 10
       \<and> st_t st = drop (length rs - 10) (map fst rs)
       \<and> st_h st = drop (length rs - 10) (map (\<lambda>r. fst (snd r)) rs)
       \<and> st_avg_t st = (if rs = [] then 0 else sum_list (st_t st) / of_nat (length (st_t st)))
       \<and> st_avg_h st = (if rs = [] then 0 else sum_list (st_h st) / of_nat (length (st_h st)))
       \<and> st_t st' = (if length (st_t st) = 10 then tl (st_t st) @ [tt] else st_t st @ [tt])
       \<and> st_h st' = (if length (st_h st) = 10 then tl (st_h st) @ [hh] else st_h st @ [hh])
       \<and> length (st_t st') \<le> 10 \<and> length (st_h st') \<le> 10
       \<and> st_avg_t st' = sum_list (st_t st') / of_nat (length (st_t st'))
       \<and> st_avg_h st' = sum_list (st_h st') / of_nat (length (st_h st')))"
proof -
  let ?st = "Stats_add_all Stats_init rs"
  let ?st' = "snd (Stats_add ?st tt hh ts)"
  have t: "st_t ?st = drop (length rs - 10) (map fst rs)"
    using Stats_add_all_t [of Stats_init rs] by (simp add: Stats_init_def)
  have h: "st_h ?st = drop (length rs - 10) (map (\<lambda>r. fst (snd r)) rs)"
    using Stats_add_all_h [of Stats_init rs] by (simp add: Stats_init_def)
  have lt: "length (st_t ?st) \<le> 10" and lh: "length (st_h ?st) \<le> 10"
    by (simp_all add: t h)
  have avg: "st_avg_t ?st = (if rs = [] then 0 else sum_list (st_t ?st) / of_nat (length (st_t ?st)))"
    "st_avg_h ?st = (if rs = [] then 0 else sum_list (st_h ?st) / of_nat (length (st_h ?st)))"
    using Stats_add_all_avg [of rs Stats_init] by (auto simp: Stats_init_def)
  have t': "st_t ?st' = (if length (st_t ?st) = 10 then tl (st_t ?st) @ [tt] else st_t ?st @ [tt])"
    using lt by (auto simp: Stats_add_t deque_append_evict)
  have h': "st_h ?st' = (if length (st_h ?st) = 10 then tl (st_h ?st) @ [hh] else st_h ?st @ [hh])"
    using lh by (auto simp: Stats_add_h deque_append_evict)
  have lt': "length (st_t ?st') \<le> 10" using lt by (simp add: Stats_add_t deque_append_length)
  have lh': "length (st_h ?st') \<le> 10" using lh by (simp add: Stats_add_h deque_append_length)
  have avg': "st_avg_t ?st' = sum_list (st_t ?st') / of_nat (length (st_t ?st'))"
    "st_avg_h ?st' = sum_list (st_h ?st') / of_nat (length (st_h ?st'))"
    by (rule Stats_add_avg_t, rule Stats_add_avg_h)
  show ?thesis
    unfolding Let_def using t h lt lh avg t' h' lt' lh' avg' by blast
qed

section \<open>Properties of the sender\<close>

lemma packets_of_Nil: "packets_of clock k [] = []"
  by (simp add: packets_of_def)

lemma packets_of_Cons:
  "packets_of clock k ((sid, a, b, n) # cs)
     = make_packet sid a b n (clock k) # packets_of clock (Suc k) cs"
  by (simp add: packets_of_def)

lemma send_charging:
  "charging_event w \<Longrightarrow>
   send net clock sid a b n w
     = w\<lparr>packet_queue := packet_queue w @ [make_packet sid a b n (clock (now_calls w))],
         now_calls := now_calls w + 1\<rparr>"
  by (simp add: send_def Let_def)

lemma send_all_charging:
  "charging_event w \<Longrightarrow>
   send_all net clock cs w
     = w\<lparr>packet_queue := packet_queue w @ packets_of clock (now_calls w) cs,
         now_calls := now_calls w + length cs\<rparr>"
proof (induction cs arbitrary: w)
  case Nil
  then show ?case by (simp add: packets_of_Nil)
next
  case (Cons c cs)
  obtain sid a b n where c: "c = (sid, a, b, n)" by (cases c)
  let ?w1 = "send net clock sid a b n w"
  have w1: "?w1 = w\<lparr>packet_queue := packet_queue w @ [make_packet sid a b n (clock (now_calls w))],
         now_calls := now_calls w + 1\<rparr>"
    using Cons.prems by (rule send_charging)
  have ch: "charging_event ?w1" using Cons.prems by (simp add: w1)
  show ?case
    using Cons.IH [OF ch] by (simp add: c w1 packets_of_Cons)
qed

lemma send_running_fail:
  assumes "\<not> charging_event w" and "send_fails net w"
  shows "send net clock sid a b n w
     = w\<lparr>now_calls := now_calls w + 1,
         net_ops := net_ops w + (if sock w = None \<and> net (net_ops w) then 2 else 1),
         log_queue := log_queue w
            @ [if sock w = None \<and> \<not> net (net_ops w) then LogCentralOffline else LogCentralLost],
         sock := None,
         packet_queue := packet_queue w @ [make_packet sid a b n (clock (now_calls w))]\<rparr>"
  using assms
  by (cases "sock w") (auto simp: send_def send_transmit_def send_fails_def Let_def)

lemma send_running_ok:
  assumes "\<not> charging_event w" and "\<not> send_fails net w"
  shows "send net clock sid a b n w
     = w\<lparr>now_calls := now_calls w + 1,
         net_ops := net_ops w + (if sock w = None then 2 else 1),
         sock := Some (case sock w of None \<Rightarrow> net_ops w | Some c \<Rightarrow> c),
         wire := wire w @ [(case sock w of None \<Rightarrow> net_ops w | Some c \<Rightarrow> c,
                            make_packet sid a b n (clock (now_calls w)))]\<rparr>"
  using assms
  by (cases "sock w") (auto simp: send_def send_transmit_def send_fails_def Let_def)

lemma send_all_running_fail:
  "\<not> charging_event w \<Longrightarrow> sends_fail net clock cs w \<Longrightarrow>
   packet_queue (send_all net clock cs w) = packet_queue w @ packets_of clock (now_calls w) cs
   \<and> wire (send_all net clock cs w) = wire w
   \<and> now_calls (send_all net clock cs w) = now_calls w + length cs
   \<and> \<not> charging_event (send_all net clock cs w)
   \<and> (cs \<noteq> [] \<longrightarrow> sock (send_all net clock cs w) = None)"
proof (induction cs arbitrary: w)
  case Nil
  then show ?case by (simp add: packets_of_Nil)
next
  case (Cons c cs)
  obtain sid a b n where c: "c = (sid, a, b, n)" by (cases c)
  let ?w1 = "send net clock sid a b n w"
  from Cons.prems have f: "send_fails net w" and fs: "sends_fail net clock cs ?w1"
    by (simp_all add: c)
  note w1 = send_running_fail [OF Cons.prems(1) f, of clock sid a b n]
  have ch: "\<not> charging_event ?w1" using Cons.prems(1) by (simp add: w1)
  have q1: "packet_queue ?w1 = packet_queue w @ [make_packet sid a b n (clock (now_calls w))]"
    and n1: "now_calls ?w1 = now_calls w + 1" and wi1: "wire ?w1 = wire w"
    and s1: "sock ?w1 = None"
    by (simp_all add: w1)
  show ?case
    using Cons.IH [OF ch fs] by (cases cs) (simp_all add: c q1 n1 wi1 s1 packets_of_Cons)
qed

text \<open>
  C4. While the charging flag is set, every call of \<^verbatim>\<open>send\<close> only builds its packet and
  appends it to the end of the queue: a sequence of such calls leaves the shared state as
  it was except that the queue has grown by the packets in call order (and the clock has
  been read once per call). Nothing is transmitted, no network operation is attempted,
  and the persistent connection and the log are untouched.
\<close>

theorem send_while_charging_queues:
  assumes "charging_event w"
  shows "send_all net clock cs w
           = w\<lparr>packet_queue := packet_queue w @ packets_of clock (now_calls w) cs,
               now_calls := now_calls w + length cs\<rparr>
         \<and> wire (send_all net clock cs w) = wire w
         \<and> net_ops (send_all net clock cs w) = net_ops w
         \<and> sock (send_all net clock cs w) = sock w
         \<and> log_queue (send_all net clock cs w) = log_queue w
         \<and> send net clock sid a b n w
           = w\<lparr>packet_queue := packet_queue w @ [make_packet sid a b n (clock (now_calls w))],
               now_calls := now_calls w + 1\<rparr>"
  using assms by (simp add: send_all_charging send_charging)

theorem send_while_charging_queues_witness:
  "charging_event (world_init\<lparr>charging_event := True\<rparr>)
   \<and> packet_queue (send_all (\<lambda>i. True) clock_demo
        [(JStr ''s1'', 20, 40, 0), (JStr ''s2'', 21, 41, 1)] (world_init\<lparr>charging_event := True\<rparr>))
       = [make_packet (JStr ''s1'') 20 40 0 ''T'', make_packet (JStr ''s2'') 21 41 1 ''+T'']
   \<and> wire (send_all (\<lambda>i. True) clock_demo
        [(JStr ''s1'', 20, 40, 0), (JStr ''s2'', 21, 41, 1)] (world_init\<lparr>charging_event := True\<rparr>)) = []
   \<and> net_ops (send_all (\<lambda>i. True) clock_demo
        [(JStr ''s1'', 20, 40, 0), (JStr ''s2'', 21, 41, 1)] (world_init\<lparr>charging_event := True\<rparr>)) = 0"
proof -
  have h: "charging_event (world_init\<lparr>charging_event := True\<rparr>)" by simp
  show ?thesis
    using send_while_charging_queues [OF h, of "\<lambda>i. True" clock_demo
        "[(JStr ''s1'', 20, 40, 0), (JStr ''s2'', 21, 41, 1)]" JNull 0 0 0]
    by (simp add: world_init_def packets_of_def clock_demo_def)
qed

text \<open>
  C5. When \<^verbatim>\<open>send\<close> is called while running and opening the connection or transmitting
  fails, it logs the failure (\<open>LogCentralOffline\<close> for the connection,
  \<open>LogCentralLost\<close> for the transmission), leaves no connection open, and appends the
  packet to the end of the queue. Nothing reaches the collector in that call and the call
  attempts each operation once (one or two operations in all). The next call starts by
  opening a connection: when it succeeds, its packet travels on the connection opened
  after the failure.
\<close>

theorem send_failure_falls_back:
  assumes "\<not> charging_event w" and "send_fails net w"
  shows "(let w' = send net clock sid a b n w
          in sock w' = None
             \<and> packet_queue w' = packet_queue w @ [make_packet sid a b n (clock (now_calls w))]
             \<and> log_queue w' = log_queue w
                 @ [if sock w = None \<and> \<not> net (net_ops w) then LogCentralOffline else LogCentralLost]
             \<and> wire w' = wire w
             \<and> net_ops w' = net_ops w + (if sock w = None \<and> net (net_ops w) then 2 else 1)
             \<and> (if send_fails net w'
                 then wire (send net clock sid2 a2 b2 n2 w') = wire w
                 else wire (send net clock sid2 a2 b2 n2 w')
                        = wire w @ [(net_ops w', make_packet sid2 a2 b2 n2 (clock (now_calls w')))]))"
proof -
  let ?w' = "send net clock sid a b n w"
  note w' = send_running_fail [OF assms, of clock sid a b n]
  have ch: "\<not> charging_event ?w'" using assms(1) by (simp add: w')
  have s: "sock ?w' = None" by (simp add: w')
  have wi: "wire ?w' = wire w" by (simp add: w')
  have nxt: "(if send_fails net ?w'
                 then wire (send net clock sid2 a2 b2 n2 ?w') = wire w
                 else wire (send net clock sid2 a2 b2 n2 ?w')
                        = wire w @ [(net_ops ?w', make_packet sid2 a2 b2 n2 (clock (now_calls ?w')))])"
  proof (cases "send_fails net ?w'")
    case True
    show ?thesis using send_running_fail [OF ch True, of clock sid2 a2 b2 n2] True wi by simp
  next
    case False
    show ?thesis using send_running_ok [OF ch False, of clock sid2 a2 b2 n2] False wi s by simp
  qed
  show ?thesis
    unfolding Let_def using nxt by (simp add: w')
qed

theorem send_failure_falls_back_witness:
  "\<not> charging_event world_init \<and> send_fails (\<lambda>i. 2 \<le> i) world_init
   \<and> sock (send (\<lambda>i. 2 \<le> i) clock_demo (JStr ''s1'') 20 40 0 world_init) = None
   \<and> packet_queue (send (\<lambda>i. 2 \<le> i) clock_demo (JStr ''s1'') 20 40 0 world_init)
       = [make_packet (JStr ''s1'') 20 40 0 ''T'']
   \<and> log_queue (send (\<lambda>i. 2 \<le> i) clock_demo (JStr ''s1'') 20 40 0 world_init) = [LogCentralOffline]
   \<and> wire (send (\<lambda>i. 2 \<le> i) clock_demo (JStr ''s1'') 20 40 0 world_init) = []"
proof -
  have h1: "\<not> charging_event world_init" by (simp add: world_init_def)
  have h2: "send_fails (\<lambda>i. 2 \<le> i) world_init" by (simp add: send_fails_def world_init_def)
  show ?thesis
    using h1 h2 send_failure_falls_back [OF h1 h2, of clock_demo "JStr ''s1''" 20 40 0 JNull 0 0 0]
    by (simp add: Let_def world_init_def clock_demo_def)
qed

text \<open>
  C9. While running, a sequence of calls of \<^verbatim>\<open>send\<close> that all fail leaves the queue
  extended by exactly one packet per call, in call order, and transmits nothing. A call
  that succeeds while running leaves the queue as it was and transmits only its own
  packet.
\<close>

theorem running_failures_queue_in_order:
  "(\<not> charging_event w \<and> sends_fail net clock cs w \<longrightarrow>
      packet_queue (send_all net clock cs w)
        = packet_queue w @ packets_of clock (now_calls w) cs
      \<and> length (packet_queue (send_all net clock cs w)) = length (packet_queue w) + length cs
      \<and> wire (send_all net clock cs w) = wire w)
   \<and> (\<not> charging_event w \<and> \<not> send_fails net w \<longrightarrow>
      packet_queue (send net clock sid a b n w) = packet_queue w
      \<and> wire (send net clock sid a b n w)
          = wire w @ [(case sock w of None \<Rightarrow> net_ops w | Some c \<Rightarrow> c,
                       make_packet sid a b n (clock (now_calls w)))])"
proof (intro conjI impI)
  assume a: "\<not> charging_event w \<and> sends_fail net clock cs w"
  then show "packet_queue (send_all net clock cs w)
        = packet_queue w @ packets_of clock (now_calls w) cs"
    using send_all_running_fail [of w net clock cs] by simp
  then show "length (packet_queue (send_all net clock cs w)) = length (packet_queue w) + length cs"
    by (simp add: packets_of_def)
  show "wire (send_all net clock cs w) = wire w"
    using a send_all_running_fail [of w net clock cs] by simp
next
  assume a: "\<not> charging_event w \<and> \<not> send_fails net w"
  then have eq: "send net clock sid a b n w
     = w\<lparr>now_calls := now_calls w + 1,
         net_ops := net_ops w + (if sock w = None then 2 else 1),
         sock := Some (case sock w of None \<Rightarrow> net_ops w | Some c \<Rightarrow> c),
         wire := wire w @ [(case sock w of None \<Rightarrow> net_ops w | Some c \<Rightarrow> c,
                            make_packet sid a b n (clock (now_calls w)))]\<rparr>"
    using send_running_ok [of w net clock sid a b n] by simp
  show "packet_queue (send net clock sid a b n w) = packet_queue w"
    by (simp add: eq)
  show "wire (send net clock sid a b n w)
          = wire w @ [(case sock w of None \<Rightarrow> net_ops w | Some c \<Rightarrow> c,
                       make_packet sid a b n (clock (now_calls w)))]"
    by (simp add: eq)
qed

lemma demo_world:
  "send_all (\<lambda>i. 3 \<le> i) clock_demo calls_demo world_init
    = world_init\<lparr>now_calls := 3, net_ops := 3,
        log_queue := [LogCentralOffline, LogCentralOffline, LogCentralOffline],
        packet_queue := [make_packet (JStr ''s1'') 20 40 0 ''T'',
                         make_packet (JStr ''s2'') 21 41 1 ''+T'',
                         make_packet (JStr ''s1'') 22 42 0 ''++T'']\<rparr>"
  by (simp add: calls_demo_def world_init_def send_def Let_def clock_demo_def)

theorem running_failures_queue_in_order_witness:
  "\<not> charging_event world_init
   \<and> sends_fail (\<lambda>i. 3 \<le> i) clock_demo calls_demo world_init
   \<and> packet_queue (send_all (\<lambda>i. 3 \<le> i) clock_demo calls_demo world_init)
       = [make_packet (JStr ''s1'') 20 40 0 ''T'',
          make_packet (JStr ''s2'') 21 41 1 ''+T'',
          make_packet (JStr ''s1'') 22 42 0 ''++T'']
   \<and> \<not> send_fails (\<lambda>i. 3 \<le> i) (send_all (\<lambda>i. 3 \<le> i) clock_demo calls_demo world_init)
   \<and> packet_queue (send (\<lambda>i. 3 \<le> i) clock_demo (JStr ''s2'') 23 43 1
        (send_all (\<lambda>i. 3 \<le> i) clock_demo calls_demo world_init))
       = [make_packet (JStr ''s1'') 20 40 0 ''T'',
          make_packet (JStr ''s2'') 21 41 1 ''+T'',
          make_packet (JStr ''s1'') 22 42 0 ''++T'']
   \<and> wire (send (\<lambda>i. 3 \<le> i) clock_demo (JStr ''s2'') 23 43 1
        (send_all (\<lambda>i. 3 \<le> i) clock_demo calls_demo world_init))
       = [(3, make_packet (JStr ''s2'') 23 43 1 ''+++T'')]"
proof -
  let ?net = "\<lambda>i::nat. 3 \<le> i"
  let ?w3 = "send_all ?net clock_demo calls_demo world_init"
  have h1: "\<not> charging_event world_init" by (simp add: world_init_def)
  have h2: "sends_fail ?net clock_demo calls_demo world_init"
    by (simp add: calls_demo_def world_init_def send_fails_def send_def Let_def)
  have h3: "\<not> charging_event ?w3" unfolding demo_world by (simp add: world_init_def)
  have h4: "\<not> send_fails ?net ?w3"
    unfolding demo_world by (simp add: world_init_def send_fails_def)
  have A: "packet_queue ?w3
      = packet_queue world_init @ packets_of clock_demo (now_calls world_init) calls_demo"
    using running_failures_queue_in_order [of world_init ?net clock_demo calls_demo JNull 0 0 0]
      h1 h2 by blast
  have B: "packet_queue (send ?net clock_demo (JStr ''s2'') 23 43 1 ?w3) = packet_queue ?w3"
    and C: "wire (send ?net clock_demo (JStr ''s2'') 23 43 1 ?w3)
      = wire ?w3 @ [(case sock ?w3 of None \<Rightarrow> net_ops ?w3 | Some c \<Rightarrow> c,
                     make_packet (JStr ''s2'') 23 43 1 (clock_demo (now_calls ?w3)))]"
    using running_failures_queue_in_order [of ?w3 ?net clock_demo "[]" "JStr ''s2''" 23 43 1]
      h3 h4 by blast+
  have pk: "packet_queue world_init @ packets_of clock_demo (now_calls world_init) calls_demo
      = [make_packet (JStr ''s1'') 20 40 0 ''T'',
         make_packet (JStr ''s2'') 21 41 1 ''+T'',
         make_packet (JStr ''s1'') 22 42 0 ''++T'']"
    by (simp add: packets_of_def calls_demo_def clock_demo_def world_init_def)
  have w3: "wire ?w3 = []" "sock ?w3 = None" "net_ops ?w3 = 3" "now_calls ?w3 = 3"
    unfolding demo_world by (simp_all add: world_init_def)
  have ck: "clock_demo 3 = ''+++T''"
    by (simp add: clock_demo_def numeral_3_eq_3)
  show ?thesis
    using h1 h2 h4 A B C by (simp only: pk w3 ck option.case append_Nil simp_thms)
qed

section \<open>Properties of the flush routine\<close>

lemma flushed_le: "flushed net n q \<le> length q"
  by (induction q arbitrary: n) auto

lemma flushed_all_ok: "i < flushed net n q \<Longrightarrow> net (n + 2 * i) \<and> net (n + 2 * i + 1)"
proof (induction q arbitrary: n i)
  case Nil
  then show ?case by simp
next
  case (Cons p ps)
  then have ok: "net n \<and> net (n + 1)" and i: "i < Suc (flushed net (n + 2) ps)"
    by (auto split: if_splits)
  show ?case
  proof (cases i)
    case 0
    with ok show ?thesis by simp
  next
    case (Suc j)
    with i have "j < flushed net (n + 2) ps" by simp
    from Cons.IH [OF this] Suc show ?thesis by (simp add: add.assoc)
  qed
qed

lemma flushed_first_failure:
  "flushed net n q < length q \<Longrightarrow>
   \<not> (net (n + 2 * flushed net n q) \<and> net (n + 2 * flushed net n q + 1))"
proof (induction q arbitrary: n)
  case Nil
  then show ?case by simp
next
  case (Cons p ps)
  show ?case
  proof (cases "net n \<and> net (n + 1)")
    case True
    with Cons.prems have "flushed net (n + 2) ps < length ps" by simp
    from Cons.IH [OF this] True show ?thesis by (simp add: add.assoc)
  next
    case False
    then show ?thesis by auto
  qed
qed

lemma fresh_conns_fst: "map fst (fresh_conns n ps) = map (\<lambda>i. n + 2 * i) [0..<length ps]"
proof (induction ps arbitrary: n)
  case Nil
  then show ?case by simp
next
  case (Cons p ps)
  have "map (\<lambda>i. n + 2 * i) [0..<Suc (length ps)]
      = n # map (\<lambda>i. n + 2 * i) (map Suc [0..<length ps])"
    by (simp add: upt_conv_Cons map_Suc_upt del: upt_Suc)
  then show ?case using Cons.IH [of "n + 2"] by (simp add: comp_def del: upt_Suc)
qed

lemma fresh_conns_snd: "map snd (fresh_conns n ps) = ps"
  by (induction ps arbitrary: n) auto

lemma flush_queue_Nil: "packet_queue w = [] \<Longrightarrow> flush_queue net w = w"
  by (simp add: flush_queue.simps)

lemma flush_queue_Cons:
  "packet_queue w = p # rest \<Longrightarrow>
   flush_queue net w =
     (let r = flush_body net p (w\<lparr>packet_queue := rest\<rparr>)
      in if fst r then flush_queue net (snd r) else snd r)"
  by (simp add: flush_queue.simps [of net w])

lemma flush_queue_char:
  "packet_queue w = q \<Longrightarrow>
   flush_queue net w
     = w\<lparr>packet_queue := drop (flushed net (net_ops w) q) q,
         wire := wire w @ fresh_conns (net_ops w) (take (flushed net (net_ops w) q) q),
         log_queue := log_queue w @ replicate (flushed net (net_ops w) q) LogQueuedSent
            @ (if flushed net (net_ops w) q < length q then [LogStillOffline] else []),
         net_ops := net_ops w + 2 * flushed net (net_ops w) q
            + (if flushed net (net_ops w) q < length q
               then (if net (net_ops w + 2 * flushed net (net_ops w) q) then 2 else 1)
               else 0)\<rparr>"
proof (induction q arbitrary: w)
  case Nil
  then show ?case by (simp add: flush_queue_Nil)
next
  case (Cons p ps)
  let ?n = "net_ops w"
  show ?case
  proof (cases "net ?n \<and> net (?n + 1)")
    case False
    then show ?thesis
      using Cons.prems by (auto simp: flush_queue_Cons flush_body_def Let_def)
  next
    case True
    let ?w1 = "w\<lparr>packet_queue := ps, net_ops := ?n + 2, wire := wire w @ [(?n, p)],
                  log_queue := log_queue w @ [LogQueuedSent]\<rparr>"
    have step: "flush_queue net w = flush_queue net ?w1"
      using Cons.prems True by (simp add: flush_queue_Cons flush_body_def Let_def)
    have q1: "packet_queue ?w1 = ps" by simp
    show ?thesis
      unfolding step Cons.IH [OF q1]
      using True Cons.prems by (simp add: replicate_append_same add.assoc)
  qed
qed

text \<open>
  C6. For every initial queue \<open>q\<close> and every behaviour of the network,
  \<^verbatim>\<open>flush_queue\<close> transmits the packets of \<open>q\<close> from the front, each over a connection of its
  own, as long as connecting and sending succeed; \<open>k\<close> is the number of packets so
  transmitted. All attempts before \<open>k\<close> succeeded and, when \<open>k\<close> is less than the length
  of \<open>q\<close>, the attempt for the packet at position \<open>k\<close> failed. On exit the queue is the
  suffix of \<open>q\<close> from position \<open>k\<close> on, in the original order: it is empty, or its head
  is the packet whose attempt failed. The collector has received exactly the first \<open>k\<close>
  packets in order, the log holds one line per attempt, and after a failure no further
  network operation is attempted.
\<close>

theorem flush_queue_stops_at_first_failure:
  "(let q = packet_queue w; n = net_ops w; k = flushed net n q; w' = flush_queue net w
    in k \<le> length q
       \<and> (\<forall>i<k. net (n + 2 * i) \<and> net (n + 2 * i + 1))
       \<and> (k < length q \<longrightarrow> \<not> (net (n + 2 * k) \<and> net (n + 2 * k + 1)))
       \<and> packet_queue w' = drop k q
       \<and> (packet_queue w' = [] \<or> (k < length q \<and> hd (packet_queue w') = q ! k))
       \<and> wire w' = wire w @ fresh_conns n (take k q)
       \<and> map snd (fresh_conns n (take k q)) = take k q
       \<and> map fst (fresh_conns n (take k q)) = map (\<lambda>i. n + 2 * i) [0..<k]
       \<and> log_queue w' = log_queue w @ replicate k LogQueuedSent
            @ (if k < length q then [LogStillOffline] else [])
       \<and> net_ops w' = n + 2 * k
            + (if k < length q then (if net (n + 2 * k) then 2 else 1) else 0))"
proof -
  let ?q = "packet_queue w" and ?n = "net_ops w"
  let ?k = "flushed net ?n ?q"
  let ?w' = "flush_queue net w"
  note char = flush_queue_char [of w ?q net, OF refl]
  have le: "?k \<le> length ?q" by (rule flushed_le)
  have ok: "\<forall>i<?k. net (?n + 2 * i) \<and> net (?n + 2 * i + 1)"
    using flushed_all_ok [of _ net ?n ?q] by blast
  have bad: "?k < length ?q \<longrightarrow> \<not> (net (?n + 2 * ?k) \<and> net (?n + 2 * ?k + 1))"
    using flushed_first_failure [of net ?n ?q] by blast
  have pq: "packet_queue ?w' = drop ?k ?q" by (simp add: char)
  have hd: "packet_queue ?w' = [] \<or> (?k < length ?q \<and> hd (packet_queue ?w') = ?q ! ?k)"
    unfolding pq using le by (cases "?k < length ?q") (simp_all add: hd_drop_conv_nth)
  have wi: "wire ?w' = wire w @ fresh_conns ?n (take ?k ?q)" by (simp add: char)
  have sn: "map snd (fresh_conns ?n (take ?k ?q)) = take ?k ?q" by (rule fresh_conns_snd)
  have fs: "map fst (fresh_conns ?n (take ?k ?q)) = map (\<lambda>i. ?n + 2 * i) [0..<?k]"
    using le by (simp add: fresh_conns_fst min_absorb2)
  have lg: "log_queue ?w' = log_queue w @ replicate ?k LogQueuedSent
            @ (if ?k < length ?q then [LogStillOffline] else [])"
    by (simp add: char)
  have no: "net_ops ?w' = ?n + 2 * ?k
            + (if ?k < length ?q then (if net (?n + 2 * ?k) then 2 else 1) else 0)"
    by (simp add: char)
  show ?thesis
    unfolding Let_def using le ok bad pq hd wi sn fs lg no by blast
qed

lemma flushed_demo: "flushed (\<lambda>i. i < 3) 0 queue_demo = 1"
  by (simp add: queue_demo_def)

theorem flush_queue_stops_at_first_failure_witness:
  "packet_queue (flush_queue (\<lambda>i. i < 3) (world_init\<lparr>packet_queue := queue_demo\<rparr>))
     = [make_packet (JStr ''s2'') 21 41 1 ''+T'', make_packet (JStr ''s1'') 22 42 0 ''++T'']
   \<and> wire (flush_queue (\<lambda>i. i < 3) (world_init\<lparr>packet_queue := queue_demo\<rparr>))
     = [(0, make_packet (JStr ''s1'') 20 40 0 ''T'')]
   \<and> log_queue (flush_queue (\<lambda>i. i < 3) (world_init\<lparr>packet_queue := queue_demo\<rparr>))
     = [LogQueuedSent, LogStillOffline]
   \<and> net_ops (flush_queue (\<lambda>i. i < 3) (world_init\<lparr>packet_queue := queue_demo\<rparr>)) = 4"
  using flush_queue_stops_at_first_failure
    [of "world_init\<lparr>packet_queue := queue_demo\<rparr>" "\<lambda>i. i < 3"]
  by (simp add: Let_def flushed_demo) (simp add: queue_demo_def world_init_def)

lemma flush_fuel_enough:
  "packet_queue w = q \<Longrightarrow> flush_fuel (length q + extra) net w = Some (flush_queue net w)"
proof (induction q arbitrary: w)
  case Nil
  then show ?case by (simp add: flush_fuel.simps flush_queue_Nil)
next
  case (Cons p ps)
  let ?r = "flush_body net p (w\<lparr>packet_queue := ps\<rparr>)"
  show ?case
  proof (cases "fst ?r")
    case True
    then have "packet_queue (snd ?r) = ps"
      by (auto simp: flush_body_def split: if_splits)
    from Cons.IH [OF this] True Cons.prems show ?thesis
      by (simp add: flush_fuel.simps [of _ net w] flush_queue_Cons Let_def)
  next
    case False
    with Cons.prems show ?thesis
      by (simp add: flush_fuel.simps [of _ net w] flush_queue_Cons Let_def)
  qed
qed

text \<open>
  C10. \<^verbatim>\<open>flush_queue\<close> terminates on every queue and every behaviour of the network (it
  is a total function, by the termination proof above), and as many turns of the loop as
  the queue has packets always suffice: with that much fuel, or more, the bounded loop
  returns the result of \<^verbatim>\<open>flush_queue\<close>. Each turn logs one line and attempts at most two
  network operations, so the log grows by at most the length of the queue and at most
  twice as many operations are attempted; the queue never grows.
\<close>

theorem flush_queue_terminates_within_queue_length:
  "flush_fuel (length (packet_queue w) + extra) net w = Some (flush_queue net w)
   \<and> length (log_queue (flush_queue net w)) \<le> length (log_queue w) + length (packet_queue w)
   \<and> net_ops (flush_queue net w) \<le> net_ops w + 2 * length (packet_queue w)
   \<and> length (packet_queue (flush_queue net w)) \<le> length (packet_queue w)"
proof -
  note char = flush_queue_char [of w "packet_queue w" net, OF refl]
  have le: "flushed net (net_ops w) (packet_queue w) \<le> length (packet_queue w)"
    by (rule flushed_le)
  have "flush_fuel (length (packet_queue w) + extra) net w = Some (flush_queue net w)"
    by (rule flush_fuel_enough [OF refl])
  moreover have "length (log_queue (flush_queue net w))
      \<le> length (log_queue w) + length (packet_queue w)"
    using le by (simp add: char)
  moreover have "net_ops (flush_queue net w) \<le> net_ops w + 2 * length (packet_queue w)"
    using le by (simp add: char)
  moreover have "length (packet_queue (flush_queue net w)) \<le> length (packet_queue w)"
    by (simp add: char)
  ultimately show ?thesis by blast
qed

theorem flush_queue_terminates_within_queue_length_witness:
  "flush_fuel 3 (\<lambda>i. i < 3) (world_init\<lparr>packet_queue := queue_demo\<rparr>)
     = Some (flush_queue (\<lambda>i. i < 3) (world_init\<lparr>packet_queue := queue_demo\<rparr>))
   \<and> flush_fuel 1 (\<lambda>i. i < 3) (world_init\<lparr>packet_queue := queue_demo\<rparr>) = None"
proof -
  have none: "flush_fuel 1 (\<lambda>i. i < 3) (world_init\<lparr>packet_queue := queue_demo\<rparr>) = None"
    by (simp add: flush_fuel.simps flush_body_def queue_demo_def world_init_def Let_def)
  have len: "length (packet_queue (world_init\<lparr>packet_queue := queue_demo\<rparr>)) + 0 = 3"
    by (simp add: queue_demo_def)
  show ?thesis
    using none flush_queue_terminates_within_queue_length
      [of "world_init\<lparr>packet_queue := queue_demo\<rparr>" 0 "\<lambda>i. i < 3", unfolded len]
    by blast
qed

section \<open>Properties of the battery worker\<close>

lemma battery_run_discharging:
  "is_discharging b \<Longrightarrow> 0 < n \<Longrightarrow> 15 < battery_level b - int n \<Longrightarrow>
   battery_run net n (b, w)
     = (b\<lparr>battery_level := battery_level b - int n\<rparr>, w\<lparr>gui_batt := battery_level b - int n\<rparr>)"
proof (induction n arbitrary: b w)
  case 0
  then show ?case by simp
next
  case (Suc n)
  let ?b1 = "b\<lparr>battery_level := battery_level b - 1\<rparr>"
  let ?w1 = "w\<lparr>gui_batt := battery_level b - 1\<rparr>"
  have step: "battery_tick net (b, w) = (?b1, ?w1)"
    using Suc.prems by (simp add: battery_tick_def Let_def)
  show ?case
  proof (cases "n = 0")
    case True
    then show ?thesis by (simp add: step)
  next
    case False
    have "battery_run net n (?b1, ?w1)
      = (?b1\<lparr>battery_level := battery_level ?b1 - int n\<rparr>,
         ?w1\<lparr>gui_batt := battery_level ?b1 - int n\<rparr>)"
      using Suc.prems False by (intro Suc.IH) simp_all
    then show ?thesis by (simp add: step algebra_simps)
  qed
qed

lemma battery_run_charging:
  "\<not> is_discharging b \<Longrightarrow> 0 < n \<Longrightarrow> battery_level b + int n < 100 \<Longrightarrow>
   battery_run net n (b, w)
     = (b\<lparr>battery_level := battery_level b + int n\<rparr>, w\<lparr>gui_batt := battery_level b + int n\<rparr>)"
proof (induction n arbitrary: b w)
  case 0
  then show ?case by simp
next
  case (Suc n)
  let ?b1 = "b\<lparr>battery_level := battery_level b + 1\<rparr>"
  let ?w1 = "w\<lparr>gui_batt := battery_level b + 1\<rparr>"
  have step: "battery_tick net (b, w) = (?b1, ?w1)"
    using Suc.prems by (simp add: battery_tick_def Let_def)
  show ?case
  proof (cases "n = 0")
    case True
    then show ?thesis by (simp add: step)
  next
    case False
    have "battery_run net n (?b1, ?w1)
      = (?b1\<lparr>battery_level := battery_level ?b1 + int n\<rparr>,
         ?w1\<lparr>gui_batt := battery_level ?b1 + int n\<rparr>)"
      using Suc.prems False by (intro Suc.IH) simp_all
    then show ?thesis by (simp add: step algebra_simps)
  qed
qed

lemma battery_run_add:
  "battery_run net (m + n) bw = battery_run net n (battery_run net m bw)"
  by (induction m arbitrary: bw) simp_all

lemma battery_cycle:
  "battery_run net 84 (battery_init, w)
     = (\<lparr>battery_level = 16, is_discharging = True\<rparr>, w\<lparr>gui_batt := 16\<rparr>)
   \<and> battery_run net 169 (battery_init, w)
     = (\<lparr>battery_level = 99, is_discharging = False\<rparr>,
        w\<lparr>gui_batt := 99, listening_event := False, charging_event := True,
          log_queue := log_queue w @ [LogBatteryLow]\<rparr>)
   \<and> battery_run net 85 (battery_init, w)
     = (\<lparr>battery_level = 15, is_discharging = False\<rparr>,
        w\<lparr>gui_batt := 15, listening_event := False, charging_event := True,
          log_queue := log_queue w @ [LogBatteryLow]\<rparr>)
   \<and> battery_run net 170 (battery_init, w)
     = (\<lparr>battery_level = 100, is_discharging = True\<rparr>,
        flush_queue net
          (w\<lparr>gui_batt := 100, listening_event := True, charging_event := False,
             log_queue := log_queue w @ [LogBatteryLow, LogBatteryFull]\<rparr>))"
proof -
  have d84: "battery_run net 84 (battery_init, w)
      = (\<lparr>battery_level = 16, is_discharging = True\<rparr>, w\<lparr>gui_batt := 16\<rparr>)"
    using battery_run_discharging [of battery_init 84 net w] by (simp add: battery_init_def)
  have "battery_run net (84 + 1) (battery_init, w)
      = battery_run net 1 (battery_run net 84 (battery_init, w))"
    by (rule battery_run_add)
  then have d85: "battery_run net 85 (battery_init, w)
     = (\<lparr>battery_level = 15, is_discharging = False\<rparr>,
        w\<lparr>gui_batt := 15, listening_event := False, charging_event := True,
          log_queue := log_queue w @ [LogBatteryLow]\<rparr>)"
    by (simp add: d84 battery_tick_def Let_def)
  let ?w85 = "w\<lparr>gui_batt := 15, listening_event := False, charging_event := True,
          log_queue := log_queue w @ [LogBatteryLow]\<rparr>"
  have c84: "battery_run net 84 (\<lparr>battery_level = 15, is_discharging = False\<rparr>, ?w85)
      = (\<lparr>battery_level = 99, is_discharging = False\<rparr>, ?w85\<lparr>gui_batt := 99\<rparr>)"
    using battery_run_charging [of "\<lparr>battery_level = 15, is_discharging = False\<rparr>" 84 net ?w85]
    by simp
  have "battery_run net (85 + 84) (battery_init, w)
      = battery_run net 84 (battery_run net 85 (battery_init, w))"
    by (simp only: battery_run_add)
  then have d169: "battery_run net 169 (battery_init, w)
     = (\<lparr>battery_level = 99, is_discharging = False\<rparr>,
        w\<lparr>gui_batt := 99, listening_event := False, charging_event := True,
          log_queue := log_queue w @ [LogBatteryLow]\<rparr>)"
    by (simp add: d85 c84)
  have "battery_run net (85 + (84 + 1)) (battery_init, w)
      = battery_run net 1 (battery_run net 84 (battery_run net 85 (battery_init, w)))"
    by (simp only: battery_run_add)
  then have d170: "battery_run net 170 (battery_init, w)
     = (\<lparr>battery_level = 100, is_discharging = True\<rparr>,
        flush_queue net
          (w\<lparr>gui_batt := 100, listening_event := True, charging_event := False,
             log_queue := log_queue w @ [LogBatteryLow, LogBatteryFull]\<rparr>))"
    by (simp add: d85 c84 battery_tick_def Let_def)
  show ?thesis using d84 d169 d85 d170 by blast
qed

text \<open>
  C7. One turn of the battery loop moves the level by exactly one: down while
  discharging, up while charging. While discharging, a turn that leaves the level above
  15 changes nothing else (the battery label apart); the turn that brings it to 15 or
  below switches to charging, clears the listening flag, sets the charging flag and logs
  it. While charging, a turn that leaves the level below 100 changes nothing else; the
  turn that brings it to 100 or above switches to running, sets the listening flag, clears
  the charging flag, logs it and runs the flush routine once, and no other turn runs it.
  From the initial state (level 100, discharging) the level falls by one per turn, the
  switch to charging happens at turn 85 with the level at 15, the level then rises by
  one per turn, and the switch back, with its one flush, happens at turn 170.
\<close>

theorem battery_tick_two_state_machine:
  "(let lvl = battery_level b + (if is_discharging b then - 1 else 1);
        b' = fst (battery_tick net (b, w)); w' = snd (battery_tick net (b, w))
    in battery_level b' = lvl
       \<and> (is_discharging b \<and> 15 < lvl \<longrightarrow>
            is_discharging b' \<and> w' = w\<lparr>gui_batt := lvl\<rparr>)
       \<and> (is_discharging b \<and> lvl \<le> 15 \<longrightarrow>
            \<not> is_discharging b'
            \<and> w' = w\<lparr>gui_batt := lvl, listening_event := False, charging_event := True,
                      log_queue := log_queue w @ [LogBatteryLow]\<rparr>)
       \<and> (\<not> is_discharging b \<and> lvl < 100 \<longrightarrow>
            \<not> is_discharging b' \<and> w' = w\<lparr>gui_batt := lvl\<rparr>)
       \<and> (\<not> is_discharging b \<and> 100 \<le> lvl \<longrightarrow>
            is_discharging b'
            \<and> w' = flush_queue net
                     (w\<lparr>gui_batt := lvl, listening_event := True, charging_event := False,
                        log_queue := log_queue w @ [LogBatteryFull]\<rparr>)))
   \<and> battery_run net 84 (battery_init, w)
       = (\<lparr>battery_level = 16, is_discharging = True\<rparr>, w\<lparr>gui_batt := 16\<rparr>)
   \<and> battery_run net 85 (battery_init, w)
       = (\<lparr>battery_level = 15, is_discharging = False\<rparr>,
          w\<lparr>gui_batt := 15, listening_event := False, charging_event := True,
            log_queue := log_queue w @ [LogBatteryLow]\<rparr>)
   \<and> battery_run net 169 (battery_init, w)
       = (\<lparr>battery_level = 99, is_discharging = False\<rparr>,
          w\<lparr>gui_batt := 99, listening_event := False, charging_event := True,
            log_queue := log_queue w @ [LogBatteryLow]\<rparr>)
   \<and> battery_run net 170 (battery_init, w)
       = (\<lparr>battery_level = 100, is_discharging = True\<rparr>,
          flush_queue net
            (w\<lparr>gui_batt := 100, listening_event := True, charging_event := False,
               log_queue := log_queue w @ [LogBatteryLow, LogBatteryFull]\<rparr>))"
  using battery_cycle [of net w] by (auto simp: battery_tick_def Let_def)

theorem battery_tick_two_state_machine_witness:
  "battery_tick (\<lambda>i. i < 3) (\<lparr>battery_level = 17, is_discharging = True\<rparr>, world_init)
     = (\<lparr>battery_level = 16, is_discharging = True\<rparr>, world_init\<lparr>gui_batt := 16\<rparr>)
   \<and> battery_tick (\<lambda>i. i < 3) (\<lparr>battery_level = 16, is_discharging = True\<rparr>, world_init)
     = (\<lparr>battery_level = 15, is_discharging = False\<rparr>,
        world_init\<lparr>gui_batt := 15, listening_event := False, charging_event := True,
                   log_queue := [LogBatteryLow]\<rparr>)
   \<and> battery_tick (\<lambda>i. i < 3) (\<lparr>battery_level = 98, is_discharging = False\<rparr>, world_init)
     = (\<lparr>battery_level = 99, is_discharging = False\<rparr>, world_init\<lparr>gui_batt := 99\<rparr>)
   \<and> battery_tick (\<lambda>i. i < 3)
       (\<lparr>battery_level = 99, is_discharging = False\<rparr>, world_init\<lparr>packet_queue := queue_demo\<rparr>)
     = (\<lparr>battery_level = 100, is_discharging = True\<rparr>,
        flush_queue (\<lambda>i. i < 3)
          (world_init\<lparr>packet_queue := queue_demo, gui_batt := 100, listening_event := True,
                      charging_event := False, log_queue := [LogBatteryFull]\<rparr>))"
proof -
  have eq: "\<And>x y :: battery_state \<times> world. fst x = fst y \<Longrightarrow> snd x = snd y \<Longrightarrow> x = y"
    by (rule prod_eqI)
  have a: "battery_tick (\<lambda>i. i < 3) (\<lparr>battery_level = 17, is_discharging = True\<rparr>, world_init)
     = (\<lparr>battery_level = 16, is_discharging = True\<rparr>, world_init\<lparr>gui_batt := 16\<rparr>)"
    using battery_tick_two_state_machine
      [of "\<lparr>battery_level = 17, is_discharging = True\<rparr>" "\<lambda>i. i < 3" world_init]
    by (intro eq) (simp_all add: Let_def)
  have b: "battery_tick (\<lambda>i. i < 3) (\<lparr>battery_level = 16, is_discharging = True\<rparr>, world_init)
     = (\<lparr>battery_level = 15, is_discharging = False\<rparr>,
        world_init\<lparr>gui_batt := 15, listening_event := False, charging_event := True,
                   log_queue := [LogBatteryLow]\<rparr>)"
    using battery_tick_two_state_machine
      [of "\<lparr>battery_level = 16, is_discharging = True\<rparr>" "\<lambda>i. i < 3" world_init]
    by (intro eq) (simp_all add: Let_def world_init_def)
  have c: "battery_tick (\<lambda>i. i < 3) (\<lparr>battery_level = 98, is_discharging = False\<rparr>, world_init)
     = (\<lparr>battery_level = 99, is_discharging = False\<rparr>, world_init\<lparr>gui_batt := 99\<rparr>)"
    using battery_tick_two_state_machine
      [of "\<lparr>battery_level = 98, is_discharging = False\<rparr>" "\<lambda>i. i < 3" world_init]
    by (intro eq) (simp_all add: Let_def)
  have d: "battery_tick (\<lambda>i. i < 3)
       (\<lparr>battery_level = 99, is_discharging = False\<rparr>, world_init\<lparr>packet_queue := queue_demo\<rparr>)
     = (\<lparr>battery_level = 100, is_discharging = True\<rparr>,
        flush_queue (\<lambda>i. i < 3)
          (world_init\<lparr>packet_queue := queue_demo, gui_batt := 100, listening_event := True,
                      charging_event := False, log_queue := [LogBatteryFull]\<rparr>))"
    using battery_tick_two_state_machine
      [of "\<lparr>battery_level = 99, is_discharging = False\<rparr>" "\<lambda>i. i < 3"
          "world_init\<lparr>packet_queue := queue_demo\<rparr>"]
    by (intro eq) (simp_all add: Let_def world_init_def)
  show ?thesis using a b c d by blast
qed

section \<open>Properties of the listener\<close>
















section \<open>Properties of the summaries sent by the listener\<close>


lemma delivered_frame [simp]:
  "delivered (w\<lparr>sensors := s, log_queue := l\<rparr>) = delivered w"
  by (simp add: delivered_def)





















end
